theory Spec2Isabelle
  imports Main
begin

section \<open>Python strings and dictionaries\<close>

text \<open>
  A Python \<^verbatim>\<open>str\<close> is a sequence of Unicode code points. The names of the models
  and the documents in which they are searched are lists of code points; the strings that
  the programs only compare and copy (model ids, providers, statuses, regions) are
  \<open>string\<close>s. \<open>pystr_of\<close> gives the code points of an ASCII literal.
\<close>

type_synonym codepoint = nat

type_synonym pystr = "codepoint list"

definition pystr_of :: "string \<Rightarrow> pystr" where
  "pystr_of s = map of_char s"

text \<open>
  \<open>str_in needle haystack\<close> is \<^verbatim>\<open>needle in haystack\<close> on \<^verbatim>\<open>str\<close>: the needle
  occurs as a contiguous run of the haystack. The empty needle occurs in every haystack,
  the empty one included.
\<close>

fun is_prefix :: "pystr \<Rightarrow> pystr \<Rightarrow> bool" where
  "is_prefix [] ys = True"
| "is_prefix (x # xs) [] = False"
| "is_prefix (x # xs) (y # ys) = (x = y \<and> is_prefix xs ys)"

fun str_in :: "pystr \<Rightarrow> pystr \<Rightarrow> bool" where
  "str_in xs [] = (xs = [])"
| "str_in xs (y # ys) = (is_prefix xs (y # ys) \<or> str_in xs ys)"

text \<open>
  \<^verbatim>\<open>str.lower()\<close> is a builtin of the language and not code of the repository. It
  folds every cased letter of Unicode, may change the length of a string, and lowers a
  capital sigma according to its place in the word. The classifier takes it as the
  parameter \<open>lower\<close>, and what is proved of the classifier is proved for every function
  in its place.

  On a string of ASCII characters (code points below 128) \<^verbatim>\<open>str.lower()\<close> is
  \<open>ascii_lower\<close>: the letters \<^verbatim>\<open>A\<close> to \<^verbatim>\<open>Z\<close> (65 to 90) become \<^verbatim>\<open>a\<close> to \<^verbatim>\<open>z\<close>
  (32 higher), every other character stays.
\<close>

definition ascii_lower_cp :: "codepoint \<Rightarrow> codepoint" where
  "ascii_lower_cp c = (if 65 \<le> c \<and> c \<le> 90 then c + 32 else c)"

definition ascii_lower :: "pystr \<Rightarrow> pystr" where
  "ascii_lower s = map ascii_lower_cp s"





text \<open>
  A \<^verbatim>\<open>dict\<close> keeps its keys in insertion order, so it is an association list
  with distinct keys. \<open>dict_set d k v\<close> is \<^verbatim>\<open>d[k] = v\<close>: an existing key keeps
  its place and takes the new value, a new key goes to the end.
\<close>

fun dict_set :: "('k \<times> 'v) list \<Rightarrow> 'k \<Rightarrow> 'v \<Rightarrow> ('k \<times> 'v) list" where
  "dict_set [] k v = [(k, v)]"
| "dict_set ((k', v') # d) k v =
     (if k' = k then (k, v) # d else (k', v') # dict_set d k v)"

section \<open>The data model\<close>

type_synonym region = string

text \<open>
  A model descriptor as one region reports it. A key that may be absent from the
  dictionary is an \<open>option\<close>; \<^verbatim>\<open>modelLifecycle\<close> is a nested dictionary with the
  one key \<^verbatim>\<open>status\<close>.
\<close>

record lifecycle =
  status :: "string option"

record descriptor =
  modelId :: "string option"
  modelName :: "pystr option"
  providerName :: "string option"
  modelLifecycle :: "lifecycle option"

text \<open>
  A catalog entry is the copy of the first descriptor seen for a model id, with the
  key \<^verbatim>\<open>regions\<close> added.
\<close>

record catalog_entry =
  payload :: descriptor
  regions :: "region list"

type_synonym catalog = "(string \<times> catalog_entry) list"

section \<open>The Beta Classifier (find\_beta\_models.py)\<close>

text \<open>
  The values of \<^verbatim>\<open>models_data\<close>, as \<^verbatim>\<open>load_models_json\<close> builds them, and the
  rows that \<^verbatim>\<open>find_beta_models\<close> appends to its two lists (keys \<^verbatim>\<open>id\<close>,
  \<^verbatim>\<open>name\<close>, \<^verbatim>\<open>provider\<close>).
\<close>

record model_info =
  name :: pystr
  provider :: string
  full_model :: catalog_entry

record model_row =
  row_id :: string
  row_name :: pystr
  row_provider :: string

text \<open>
  \<^verbatim>\<open>full_model.get('modelLifecycle', {}).get('status', '')\<close>
\<close>

definition lifecycle_status :: "catalog_entry \<Rightarrow> string" where
  "lifecycle_status fm =
     (case modelLifecycle (payload fm) of
        None \<Rightarrow> []
      | Some lc \<Rightarrow> (case status lc of None \<Rightarrow> [] | Some s \<Rightarrow> s))"

definition make_row :: "string \<Rightarrow> model_info \<Rightarrow> model_row" where
  "make_row model_id info =
     \<lparr>row_id = model_id, row_name = name info, row_provider = provider info\<rparr>"

text \<open>
  The body of the loop over \<^verbatim>\<open>models_data.items()\<close>; the state is the pair
  \<open>(beta_models, found_models)\<close>, and \<open>lower\<close> is \<^verbatim>\<open>str.lower\<close>.
\<close>

fun find_beta_step ::
  "(pystr \<Rightarrow> pystr) \<Rightarrow> pystr \<Rightarrow> model_row list \<times> model_row list \<Rightarrow> string \<times> model_info
     \<Rightarrow> model_row list \<times> model_row list" where
  "find_beta_step lower html_content (beta_models, found_models) (model_id, info) =
     (if lifecycle_status (full_model info) = ''LEGACY'' then (beta_models, found_models)
      else if str_in (name info) html_content
        then (beta_models, found_models @ [make_row model_id info])
      else if str_in (lower (name info)) (lower html_content)
        then (beta_models, found_models @ [make_row model_id info])
      else (beta_models @ [make_row model_id info], found_models))"

definition find_beta_models ::
  "(pystr \<Rightarrow> pystr) \<Rightarrow> (string \<times> model_info) list \<Rightarrow> pystr
     \<Rightarrow> model_row list \<times> model_row list" where
  "find_beta_models lower models_data html_content =
     foldl (find_beta_step lower html_content) ([], []) models_data"

text \<open>The two tests of the loop body, taken together.\<close>

definition name_matches :: "(pystr \<Rightarrow> pystr) \<Rightarrow> pystr \<Rightarrow> pystr \<Rightarrow> bool" where
  "name_matches lower html_content model_name \<longleftrightarrow>
     str_in model_name html_content \<or>
     str_in (lower model_name) (lower html_content)"

definition is_legacy :: "model_info \<Rightarrow> bool" where
  "is_legacy info \<longleftrightarrow> lifecycle_status (full_model info) = ''LEGACY''"

section \<open>The data collector (refresh-bedrock-data.py)\<close>

subsection \<open>The provider's service\<close>

text \<open>
  A call to the provider either raises or returns a response. The script tells
  \<^verbatim>\<open>BotoCoreError\<close> and \<^verbatim>\<open>ClientError\<close> from every other \<^verbatim>\<open>Exception\<close>.
\<close>

datatype exn = BotoCoreError | ClientError | OtherException

text \<open>
  The response dictionaries, with the one key the script reads from each; the key may be
  absent.
\<close>

record fm_response =
  modelSummaries :: "descriptor list option"

type_synonym profile = "(string \<times> string) list"

record ip_response =
  inferenceProfileSummaries :: "profile list option"

text \<open>
  The service is outside the program and need not answer the same call twice in the same
  way, so each call takes the state \<open>'w\<close> of the world and returns the next one.
  \<open>describe_regions\<close> stands for the call together with the extraction of the
  \<^verbatim>\<open>RegionName\<close> of every element of \<^verbatim>\<open>Regions\<close>; \<open>list_foundation_models\<close> and
  \<open>list_inference_profiles\<close> stand for the creation of the regional client together
  with the call on it.
\<close>

record 'w service =
  describe_regions :: "'w \<Rightarrow> (exn + region list) \<times> 'w"
  list_foundation_models :: "region \<Rightarrow> 'w \<Rightarrow> (exn + fm_response) \<times> 'w"
  list_inference_profiles :: "region \<Rightarrow> 'w \<Rightarrow> (exn + ip_response) \<times> 'w"

subsection \<open>BedrockDataCollector\<close>

text \<open>The attributes of the object; \<open>session\<close> is its handle on the world.\<close>

record 'w collector =
  session :: 'w
  supported_regions :: "region list"
  models_by_id :: catalog
  profiles_list :: "profile list"

definition init_collector :: "'w \<Rightarrow> 'w collector" where
  "init_collector w =
     \<lparr>session = w, supported_regions = [], models_by_id = [], profiles_list = []\<rparr>"

text \<open>
  The loop of \<^verbatim>\<open>discover_bedrock_regions\<close> over \<^verbatim>\<open>all_regions\<close>, with the list
  \<^verbatim>\<open>supported\<close> as accumulator. Each of the two handlers ends the iteration and
  goes on with the next region.
\<close>

fun probe_regions ::
  "'w service \<Rightarrow> region list \<Rightarrow> region list \<Rightarrow> 'w \<Rightarrow> region list \<times> 'w" where
  "probe_regions svc [] supported w = (supported, w)"
| "probe_regions svc (region # rest) supported w =
     (case list_foundation_models svc region w of
        (Inr response, w') \<Rightarrow>
          if modelSummaries response \<noteq> None
          then probe_regions svc rest (supported @ [region]) w'
          else probe_regions svc rest supported w'
      | (Inl BotoCoreError, w') \<Rightarrow> probe_regions svc rest supported w'
      | (Inl ClientError, w') \<Rightarrow> probe_regions svc rest supported w'
      | (Inl OtherException, w') \<Rightarrow> probe_regions svc rest supported w')"

definition discover_bedrock_regions ::
  "'w service \<Rightarrow> 'w collector \<Rightarrow> (exn + region list) \<times> 'w collector" where
  "discover_bedrock_regions svc self =
     (case describe_regions svc (session self) of
        (Inl e, w) \<Rightarrow> (Inl e, self\<lparr>session := w\<rparr>)
      | (Inr all_regions, w) \<Rightarrow>
          (case probe_regions svc all_regions [] w of
             (supported, w') \<Rightarrow>
               (Inr supported, self\<lparr>session := w', supported_regions := supported\<rparr>)))"

definition fetch_models_from_region ::
  "'w service \<Rightarrow> region \<Rightarrow> 'w collector \<Rightarrow> (exn + descriptor list) \<times> 'w collector" where
  "fetch_models_from_region svc region self =
     (case list_foundation_models svc region (session self) of
        (Inl e, w) \<Rightarrow> (Inl e, self\<lparr>session := w\<rparr>)
      | (Inr response, w) \<Rightarrow>
          (Inr (case modelSummaries response of None \<Rightarrow> [] | Some models \<Rightarrow> models),
           self\<lparr>session := w\<rparr>))"

definition fetch_profiles_from_region ::
  "'w service \<Rightarrow> region \<Rightarrow> 'w collector \<Rightarrow> (exn + profile list) \<times> 'w collector" where
  "fetch_profiles_from_region svc region self =
     (case list_inference_profiles svc region (session self) of
        (Inl e, w) \<Rightarrow> (Inl e, self\<lparr>session := w\<rparr>)
      | (Inr response, w) \<Rightarrow>
          (Inr (case inferenceProfileSummaries response of None \<Rightarrow> [] | Some ps \<Rightarrow> ps),
           self\<lparr>session := w\<rparr>))"

text \<open>
  The body of the inner loop of \<^verbatim>\<open>deduplicate_and_collect_models\<close>, on the
  dictionary \<^verbatim>\<open>self.models_by_id\<close>. \<^verbatim>\<open>not model_id\<close> holds of an absent key
  (\<^verbatim>\<open>None\<close>) and of the empty string.
\<close>

definition collect_model :: "region \<Rightarrow> catalog \<Rightarrow> descriptor \<Rightarrow> catalog" where
  "collect_model region by_id model =
     (case modelId model of
        None \<Rightarrow> by_id
      | Some model_id \<Rightarrow>
          if model_id = [] then by_id
          else (case map_of by_id model_id of
                  None \<Rightarrow> dict_set by_id model_id \<lparr>payload = model, regions = [region]\<rparr>
                | Some entry \<Rightarrow>
                    if region \<notin> set (regions entry)
                    then dict_set by_id model_id
                           (entry\<lparr>regions := regions entry @ [region]\<rparr>)
                    else by_id))"

text \<open>The inner loop, over the descriptors that one region returned.\<close>

definition collect_models :: "region \<Rightarrow> catalog \<Rightarrow> descriptor list \<Rightarrow> catalog" where
  "collect_models region by_id models = foldl (collect_model region) by_id models"

text \<open>
  The outer loop, over \<^verbatim>\<open>self.supported_regions\<close>. The handler prints and raises
  again, so the first fetch that raises ends the loop with that exception.
\<close>

fun collect_models_loop ::
  "'w service \<Rightarrow> region list \<Rightarrow> 'w collector \<Rightarrow> (exn + unit) \<times> 'w collector" where
  "collect_models_loop svc [] self = (Inr (), self)"
| "collect_models_loop svc (region # rest) self =
     (case fetch_models_from_region svc region self of
        (Inl e, self') \<Rightarrow> (Inl e, self')
      | (Inr models, self') \<Rightarrow>
          collect_models_loop svc rest
            (self'\<lparr>models_by_id := collect_models region (models_by_id self') models\<rparr>))"

definition deduplicate_and_collect_models ::
  "'w service \<Rightarrow> 'w collector \<Rightarrow> (exn + unit) \<times> 'w collector" where
  "deduplicate_and_collect_models svc self =
     collect_models_loop svc (supported_regions self) self"

text \<open>\<^verbatim>\<open>profile_copy = profile.copy(); profile_copy["region"] = region\<close>\<close>

definition flatten_profiles :: "region \<Rightarrow> profile list \<Rightarrow> profile list" where
  "flatten_profiles region profiles = map (\<lambda>p. dict_set p ''region'' region) profiles"

fun collect_profiles_loop ::
  "'w service \<Rightarrow> region list \<Rightarrow> 'w collector \<Rightarrow> (exn + unit) \<times> 'w collector" where
  "collect_profiles_loop svc [] self = (Inr (), self)"
| "collect_profiles_loop svc (region # rest) self =
     (case fetch_profiles_from_region svc region self of
        (Inl e, self') \<Rightarrow> (Inl e, self')
      | (Inr profiles, self') \<Rightarrow>
          collect_profiles_loop svc rest
            (self'\<lparr>profiles_list := profiles_list self' @ flatten_profiles region profiles\<rparr>))"

definition collect_and_flatten_profiles ::
  "'w service \<Rightarrow> 'w collector \<Rightarrow> (exn + unit) \<times> 'w collector" where
  "collect_and_flatten_profiles svc self =
     collect_profiles_loop svc (supported_regions self) self"

text \<open>
  \<^verbatim>\<open>save_data\<close> writes two files; the model gives the files written, with their
  contents, in the order of writing. The pair \<open>(dir, file)\<close> is the path
  \<^verbatim>\<open>Path(dir) / file\<close>.
\<close>

datatype document = ModelsDoc "catalog_entry list" | ProfilesDoc "profile list"

type_synonym path = "string \<times> string"

definition save_data :: "string \<Rightarrow> 'w collector \<Rightarrow> (path \<times> document) list" where
  "save_data output_dir self =
     [((output_dir, ''models.json''), ModelsDoc (map snd (models_by_id self))),
      ((output_dir, ''profiles.json''), ProfilesDoc (profiles_list self))]"

text \<open>
  \<^verbatim>\<open>run\<close>: the exit status of the process (\<^verbatim>\<open>sys.exit(1)\<close> in the handler and
  for an empty list of regions, 0 when the method returns), the files written, and the
  collector at the end.
\<close>

definition run ::
  "'w service \<Rightarrow> string \<Rightarrow> 'w collector \<Rightarrow> int \<times> (path \<times> document) list \<times> 'w collector" where
  "run svc output_dir self =
     (case discover_bedrock_regions svc self of
        (Inl e, s1) \<Rightarrow> (1, [], s1)
      | (Inr supported, s1) \<Rightarrow>
          if supported_regions s1 = [] then (1, [], s1)
          else (case deduplicate_and_collect_models svc s1 of
                  (Inl e, s2) \<Rightarrow> (1, [], s2)
                | (Inr u, s2) \<Rightarrow>
                    (case collect_and_flatten_profiles svc s2 of
                       (Inl e, s3) \<Rightarrow> (1, [], s3)
                     | (Inr u', s3) \<Rightarrow> (0, save_data output_dir s3, s3))))"

section \<open>Notions used to state the properties\<close>

text \<open>
  The invariant of \<^verbatim>\<open>models_by_id\<close>: no key twice, every entry stored under the
  \<^verbatim>\<open>modelId\<close> of its own payload, and no region twice in an entry.
\<close>

definition catalog_inv :: "catalog \<Rightarrow> bool" where
  "catalog_inv by_id \<longleftrightarrow>
     distinct (map fst by_id) \<and>
     (\<forall>(k, e) \<in> set by_id. modelId (payload e) = Some k \<and> distinct (regions e))"

text \<open>
  The elements of a list in the order of their first occurrence, each of them once.
\<close>

definition first_seen :: "'a list \<Rightarrow> 'a list" where
  "first_seen xs = rev (remdups (rev xs))"

text \<open>
  The two loops of \<^verbatim>\<open>deduplicate_and_collect_models\<close> when every fetch returns:
  \<open>fetched\<close> holds, for each region in turn, the descriptors that the region returned.
  \<open>sightings\<close> is the sequence of loop-body runs that this makes, one pair of region
  and descriptor for each; \<open>sightings_of k\<close> keeps the descriptors with model id
  \<open>k\<close>.
\<close>

definition collect_step :: "catalog \<Rightarrow> region \<times> descriptor \<Rightarrow> catalog" where
  "collect_step by_id s = collect_model (fst s) by_id (snd s)"

definition collect_regions :: "catalog \<Rightarrow> (region \<times> descriptor list) list \<Rightarrow> catalog" where
  "collect_regions by_id fetched = foldl (\<lambda>c (region, models). collect_models region c models) by_id fetched"

definition sightings :: "(region \<times> descriptor list) list \<Rightarrow> (region \<times> descriptor) list" where
  "sightings fetched = concat (map (\<lambda>(region, models). map (Pair region) models) fetched)"

definition sightings_of :: "string \<Rightarrow> (region \<times> descriptor list) list \<Rightarrow> (region \<times> descriptor) list" where
  "sightings_of k fetched = filter (\<lambda>(region, model). modelId model = Some k) (sightings fetched)"

text \<open>
  The catalog has an entry for \<open>k\<close> that lists the region \<open>r\<close>.
\<close>

definition seen_in :: "region \<Rightarrow> catalog \<Rightarrow> string \<Rightarrow> bool" where
  "seen_in r c k \<longleftrightarrow> (case map_of c k of None \<Rightarrow> False | Some e \<Rightarrow> r \<in> set (regions e))"

text \<open>
  A probe counts when the call returns and the response has the key
  \<^verbatim>\<open>modelSummaries\<close>. \<open>probe_responses\<close> gives what the one call for each candidate
  returns, in the order of the calls.
\<close>

definition probe_ok :: "exn + fm_response \<Rightarrow> bool" where
  "probe_ok res = (case res of Inl e \<Rightarrow> False | Inr response \<Rightarrow> modelSummaries response \<noteq> None)"

fun probe_responses :: "'w service \<Rightarrow> region list \<Rightarrow> 'w \<Rightarrow> (exn + fm_response) list" where
  "probe_responses svc [] w = []"
| "probe_responses svc (region # rest) w =
     (case list_foundation_models svc region w of
        (res, w') \<Rightarrow> res # probe_responses svc rest w')"

section \<open>Example data\<close>

text \<open>
  The catalog entries of the scenarios: model id, name and lifecycle status vary, the
  provider is \<^verbatim>\<open>P\<close>.
\<close>

definition example_entry :: "string \<Rightarrow> pystr \<Rightarrow> string \<Rightarrow> catalog_entry" where
  "example_entry i n st =
     \<lparr>payload = \<lparr>modelId = Some i, modelName = Some n, providerName = Some ''P'',
                 modelLifecycle = Some \<lparr>status = Some st\<rparr>\<rparr>,
      regions = [''a'']\<rparr>"

definition example_info :: "string \<Rightarrow> pystr \<Rightarrow> string \<Rightarrow> model_info" where
  "example_info i n st = \<lparr>name = n, provider = ''P'', full_model = example_entry i n st\<rparr>"

definition lifecycle_examples :: "(string \<times> model_info) list" where
  "lifecycle_examples =
     [(''m1'', example_info ''m1'' (pystr_of ''Old Model'') ''LEGACY''),
      (''m2'', example_info ''m2'' (pystr_of ''Old Model'') ''legacy''),
      (''m3'', \<lparr>name = pystr_of ''New Model'', provider = ''P'',
                full_model = \<lparr>payload = \<lparr>modelId = Some ''m3'', modelName = Some (pystr_of ''New Model''),
                   providerName = Some ''P'', modelLifecycle = None\<rparr>, regions = [''a'']\<rparr>\<rparr>),
      (''m4'', \<lparr>name = pystr_of ''Old Model'', provider = ''P'',
                full_model = \<lparr>payload = \<lparr>modelId = Some ''m4'', modelName = Some (pystr_of ''Old Model''),
                   providerName = Some ''P'', modelLifecycle = Some \<lparr>status = None\<rparr>\<rparr>,
                   regions = [''a'']\<rparr>\<rparr>)]"

text \<open>
  Scenario A: regions \<^verbatim>\<open>a\<close> and \<^verbatim>\<open>b\<close> report the model \<^verbatim>\<open>m1\<close>, under the names
  \<^verbatim>\<open>Foo\<close> and \<^verbatim>\<open>FOO\<close>.
\<close>

definition scenario_A_first :: descriptor where
  "scenario_A_first =
     \<lparr>modelId = Some ''m1'', modelName = Some (pystr_of ''Foo''), providerName = Some ''P'',
      modelLifecycle = Some \<lparr>status = Some ''ACTIVE''\<rparr>\<rparr>"

definition scenario_A_second :: descriptor where
  "scenario_A_second =
     \<lparr>modelId = Some ''m1'', modelName = Some (pystr_of ''FOO''), providerName = Some ''P'',
      modelLifecycle = Some \<lparr>status = Some ''ACTIVE''\<rparr>\<rparr>"

definition scenario_A_service :: "unit service" where
  "scenario_A_service =
     \<lparr>describe_regions = (\<lambda>w. (Inr [''a'', ''b''], w)),
      list_foundation_models = (\<lambda>region w.
        (if region = ''a'' then Inr \<lparr>modelSummaries = Some [scenario_A_first]\<rparr>
         else if region = ''b'' then Inr \<lparr>modelSummaries = Some [scenario_A_second]\<rparr>
         else Inl ClientError, w)),
      list_inference_profiles = (\<lambda>region w. (Inr \<lparr>inferenceProfileSummaries = Some []\<rparr>, w))\<rparr>"

definition scenario_A_catalog :: catalog where
  "scenario_A_catalog = [(''m1'', \<lparr>payload = scenario_A_first, regions = [''a'']\<rparr>)]"

text \<open>
  A descriptor without the key \<^verbatim>\<open>modelId\<close>.
\<close>

definition no_id_descriptor :: descriptor where
  "no_id_descriptor =
     \<lparr>modelId = None, modelName = Some (pystr_of ''Nameless''), providerName = Some ''P'',
      modelLifecycle = None\<rparr>"

text \<open>
  Scenario D: the probe of \<^verbatim>\<open>r2\<close> raises. Scenario E: the world counts the calls,
  and \<^verbatim>\<open>list_foundation_models\<close> returns for the probe (call 1) and raises
  afterwards. In the last service every listing of profiles raises.
\<close>

definition scenario_D_service :: "unit service" where
  "scenario_D_service =
     \<lparr>describe_regions = (\<lambda>w. (Inr [''r1'', ''r2'', ''r3''], w)),
      list_foundation_models = (\<lambda>region w.
        (if region = ''r2'' then Inl BotoCoreError else Inr \<lparr>modelSummaries = Some []\<rparr>, w)),
      list_inference_profiles = (\<lambda>region w. (Inr \<lparr>inferenceProfileSummaries = Some []\<rparr>, w))\<rparr>"

definition scenario_E_service :: "nat service" where
  "scenario_E_service =
     \<lparr>describe_regions = (\<lambda>w. (Inr [''r1''], Suc w)),
      list_foundation_models = (\<lambda>region w.
        (if w = 1 then Inr \<lparr>modelSummaries = Some []\<rparr> else Inl ClientError, Suc w)),
      list_inference_profiles = (\<lambda>region w. (Inr \<lparr>inferenceProfileSummaries = Some []\<rparr>, Suc w))\<rparr>"

definition profile_failure_service :: "nat service" where
  "profile_failure_service =
     \<lparr>describe_regions = (\<lambda>w. (Inr [''r1''], Suc w)),
      list_foundation_models = (\<lambda>region w. (Inr \<lparr>modelSummaries = Some []\<rparr>, Suc w)),
      list_inference_profiles = (\<lambda>region w. (Inl ClientError, Suc w))\<rparr>"

section \<open>Properties of the Beta Classifier\<close>

subsection \<open>Substring search\<close>



lemma str_in_empty: "str_in [] ys"
  by (cases ys) auto



subsection \<open>What the loop computes\<close>

lemma find_beta_fold:
  "foldl (find_beta_step lower html) (b, f) md =
     (b @ map (\<lambda>(k, i). make_row k i)
            (filter (\<lambda>(k, i). \<not> is_legacy i \<and> \<not> name_matches lower html (name i)) md),
      f @ map (\<lambda>(k, i). make_row k i)
            (filter (\<lambda>(k, i). \<not> is_legacy i \<and> name_matches lower html (name i)) md))"
proof (induction md arbitrary: b f)
  case Nil
  show ?case by simp
next
  case (Cons x md)
  obtain k i where x: "x = (k, i)" by (cases x)
  show ?case
    unfolding x by (simp add: Cons.IH is_legacy_def name_matches_def)
qed

lemma beta_partition:
  "fst (find_beta_models lower md html) =
     map (\<lambda>(k, i). make_row k i)
       (filter (\<lambda>(k, i). \<not> is_legacy i \<and> \<not> name_matches lower html (name i)) md)"
  by (simp add: find_beta_models_def find_beta_fold)

lemma found_partition:
  "snd (find_beta_models lower md html) =
     map (\<lambda>(k, i). make_row k i)
       (filter (\<lambda>(k, i). \<not> is_legacy i \<and> name_matches lower html (name i)) md)"
  by (simp add: find_beta_models_def find_beta_fold)

lemma in_beta_iff:
  "r \<in> set (fst (find_beta_models lower md html)) \<longleftrightarrow>
     (\<exists>k i. (k, i) \<in> set md \<and> r = make_row k i \<and> \<not> is_legacy i \<and>
            \<not> name_matches lower html (name i))"
  by (auto simp: beta_partition)

lemma in_found_iff:
  "r \<in> set (snd (find_beta_models lower md html)) \<longleftrightarrow>
     (\<exists>k i. (k, i) \<in> set md \<and> r = make_row k i \<and> \<not> is_legacy i \<and>
            name_matches lower html (name i))"
  by (auto simp: found_partition)

lemma make_row_name: "row_name (make_row k i) = name i"
  by (simp add: make_row_def)

lemma make_row_id: "row_id (make_row k i) = k"
  by (simp add: make_row_def)

lemma lifecycle_status_LEGACY_iff:
  "lifecycle_status fm = ''LEGACY'' \<longleftrightarrow>
     (\<exists>lc. modelLifecycle (payload fm) = Some lc \<and> status lc = Some ''LEGACY'')"
  by (auto simp: lifecycle_status_def split: option.splits)

subsection \<open>Empty names\<close>

text \<open>
  Claim C1 says that an entry whose \<^verbatim>\<open>modelName\<close> is the empty string, and whose
  status is not LEGACY, goes to the beta partition and never to the found partition.
  The loop has no test for the empty name, and the empty string occurs in every text:
  with the document \<^verbatim>\<open>abc\<close> the entry \<^verbatim>\<open>m1\<close> with the empty name is in the
  found partition and not in the beta partition.
\<close>

theorem empty_name_beta_counterexample:
  "make_row ''m1'' (example_info ''m1'' [] ''ACTIVE'')
     \<in> set (snd (find_beta_models ascii_lower [(''m1'', example_info ''m1'' [] ''ACTIVE'')] (pystr_of ''abc''))) \<and>
   make_row ''m1'' (example_info ''m1'' [] ''ACTIVE'')
     \<notin> set (fst (find_beta_models ascii_lower [(''m1'', example_info ''m1'' [] ''ACTIVE'')] (pystr_of ''abc'')))"
  by (simp add: find_beta_models_def example_info_def example_entry_def lifecycle_status_def
      make_row_def pystr_of_def)

text \<open>
  Claim C1, as the code has it: an entry whose \<^verbatim>\<open>modelName\<close> is the empty string and
  whose status is not LEGACY is in the found partition and not in the beta partition,
  for every document.
\<close>

theorem empty_name_is_found:
  assumes "(k, i) \<in> set md" and "name i = []"
    and "lifecycle_status (full_model i) \<noteq> ''LEGACY''"
  shows "make_row k i \<in> set (snd (find_beta_models lower md html)) \<and>
         make_row k i \<notin> set (fst (find_beta_models lower md html))"
proof
  have m: "name_matches lower html (name i)"
    using assms(2) by (simp add: name_matches_def str_in_empty)
  show "make_row k i \<in> set (snd (find_beta_models lower md html))"
    unfolding in_found_iff using assms(1,3) m by (auto simp: is_legacy_def)
  show "make_row k i \<notin> set (fst (find_beta_models lower md html))"
  proof
    assume "make_row k i \<in> set (fst (find_beta_models lower md html))"
    then obtain k' i' where r: "make_row k i = make_row k' i'"
      and nm: "\<not> name_matches lower html (name i')"
      unfolding in_beta_iff by blast
    from r have "row_name (make_row k i) = row_name (make_row k' i')" by simp
    then have "name i' = name i" by (simp add: make_row_name)
    with nm m show False by simp
  qed
qed

theorem empty_name_is_found_witness:
  "(''m1'', example_info ''m1'' [] ''ACTIVE'') \<in> set [(''m1'', example_info ''m1'' [] ''ACTIVE'')] \<and>
   name (example_info ''m1'' [] ''ACTIVE'') = [] \<and>
   lifecycle_status (full_model (example_info ''m1'' [] ''ACTIVE'')) \<noteq> ''LEGACY'' \<and>
   make_row ''m1'' (example_info ''m1'' [] ''ACTIVE'')
     \<in> set (snd (find_beta_models ascii_lower [(''m1'', example_info ''m1'' [] ''ACTIVE'')] (pystr_of ''abc''))) \<and>
   make_row ''m1'' (example_info ''m1'' [] ''ACTIVE'')
     \<notin> set (fst (find_beta_models ascii_lower [(''m1'', example_info ''m1'' [] ''ACTIVE'')] (pystr_of ''abc'')))"
proof -
  have h1: "(''m1'', example_info ''m1'' [] ''ACTIVE'') \<in> set [(''m1'', example_info ''m1'' [] ''ACTIVE'')]"
    by simp
  have h2: "name (example_info ''m1'' [] ''ACTIVE'') = []"
    by (simp add: example_info_def)
  have h3: "lifecycle_status (full_model (example_info ''m1'' [] ''ACTIVE'')) \<noteq> ''LEGACY''"
    by (simp add: example_info_def example_entry_def lifecycle_status_def)
  show ?thesis using h1 h2 h3 empty_name_is_found [OF h1 h2 h3, where lower = ascii_lower and html = "pystr_of ''abc''"] by simp
qed

subsection \<open>Found means that the name occurs\<close>




lemma scenario_B:
  "find_beta_models ascii_lower
     [(''o3'', example_info ''o3'' (pystr_of ''Claude 3 Opus'') ''ACTIVE''),
      (''o4'', example_info ''o4'' (pystr_of ''Claude 4 Opus'') ''ACTIVE'')]
     (pystr_of ''...Claude 3 Opus is available...'') =
   ([\<lparr>row_id = ''o4'', row_name = pystr_of ''Claude 4 Opus'', row_provider = ''P''\<rparr>],
    [\<lparr>row_id = ''o3'', row_name = pystr_of ''Claude 3 Opus'', row_provider = ''P''\<rparr>])"
  by (simp add: find_beta_models_def example_info_def example_entry_def lifecycle_status_def
        make_row_def ascii_lower_def ascii_lower_cp_def pystr_of_def)

lemma scenario_C:
  "find_beta_models ascii_lower [(''x'', example_info ''x'' (pystr_of ''MODEL-X'') ''ACTIVE'')] (pystr_of ''see model-x here'') =
   ([], [\<lparr>row_id = ''x'', row_name = pystr_of ''MODEL-X'', row_provider = ''P''\<rparr>])"
  by (simp add: find_beta_models_def example_info_def example_entry_def lifecycle_status_def
        make_row_def ascii_lower_def ascii_lower_cp_def pystr_of_def)

subsection \<open>LEGACY entries\<close>

lemma row_id_in_beta:
  assumes "distinct (map fst md)" and "(k, i) \<in> set md"
    and "r \<in> set (fst (find_beta_models lower md html)) \<union> set (snd (find_beta_models lower md html))"
    and "row_id r = k"
  shows "r = make_row k i \<and> \<not> is_legacy i"
proof -
  from assms(3) obtain k' i' where in': "(k', i') \<in> set md" and r: "r = make_row k' i'"
    and nl: "\<not> is_legacy i'"
    unfolding Un_iff in_beta_iff in_found_iff by blast
  from r assms(4) have "k' = k" by (simp add: make_row_id)
  with in' assms(1,2) have "i' = i" by (simp add: eq_key_imp_eq_value)
  with r nl \<open>k' = k\<close> show ?thesis by simp
qed

text \<open>
  Claim C5: an entry whose lifecycle status is LEGACY appears in neither partition: no
  row of the beta list or of the found list carries its model id. The keys of
  \<^verbatim>\<open>models_data\<close> are distinct, as those of every dictionary.
\<close>

theorem legacy_in_neither_partition:
  assumes "distinct (map fst md)" and "(k, i) \<in> set md"
    and "lifecycle_status (full_model i) = ''LEGACY''"
  shows "k \<notin> row_id ` set (fst (find_beta_models lower md html)) \<and>
         k \<notin> row_id ` set (snd (find_beta_models lower md html))"
proof -
  have "False" if "r \<in> set (fst (find_beta_models lower md html)) \<union> set (snd (find_beta_models lower md html))"
    and "row_id r = k" for r
    using row_id_in_beta [OF assms(1,2) that] assms(3) by (simp add: is_legacy_def)
  then show ?thesis by blast
qed

lemma lifecycle_examples_result:
  "find_beta_models ascii_lower lifecycle_examples (pystr_of ''the Old Model page'') =
     ([\<lparr>row_id = ''m3'', row_name = pystr_of ''New Model'', row_provider = ''P''\<rparr>],
      [\<lparr>row_id = ''m2'', row_name = pystr_of ''Old Model'', row_provider = ''P''\<rparr>,
       \<lparr>row_id = ''m4'', row_name = pystr_of ''Old Model'', row_provider = ''P''\<rparr>])"
  by (simp add: lifecycle_examples_def find_beta_models_def example_info_def example_entry_def lifecycle_status_def
        make_row_def ascii_lower_def ascii_lower_cp_def pystr_of_def)

theorem legacy_in_neither_partition_witness:
  "distinct (map fst lifecycle_examples) \<and>
   (''m1'', example_info ''m1'' (pystr_of ''Old Model'') ''LEGACY'') \<in> set lifecycle_examples \<and>
   lifecycle_status (full_model (example_info ''m1'' (pystr_of ''Old Model'') ''LEGACY'')) = ''LEGACY'' \<and>
   ''m1'' \<notin> row_id ` set (fst (find_beta_models ascii_lower lifecycle_examples (pystr_of ''the Old Model page''))) \<and>
   ''m1'' \<notin> row_id ` set (snd (find_beta_models ascii_lower lifecycle_examples (pystr_of ''the Old Model page'')))"
proof -
  have h1: "distinct (map fst lifecycle_examples)" by (simp add: lifecycle_examples_def)
  have h2: "(''m1'', example_info ''m1'' (pystr_of ''Old Model'') ''LEGACY'') \<in> set lifecycle_examples" by (simp add: lifecycle_examples_def)
  have h3: "lifecycle_status (full_model (example_info ''m1'' (pystr_of ''Old Model'') ''LEGACY'')) = ''LEGACY''"
    by (simp add: example_info_def example_entry_def lifecycle_status_def)
  from legacy_in_neither_partition [OF h1 h2 h3, where lower = ascii_lower
      and html = "pystr_of ''the Old Model page''"] h1 h2 h3 show ?thesis by (intro conjI) simp_all
qed

text \<open>
  Claim C10: an entry is skipped exactly when its descriptor has a \<^verbatim>\<open>modelLifecycle\<close>
  whose \<^verbatim>\<open>status\<close> is the string \<^verbatim>\<open>LEGACY\<close>, letter for letter. Every other entry, one
  without \<^verbatim>\<open>modelLifecycle\<close> or without \<^verbatim>\<open>status\<close> included, is in exactly one of
  the two partitions; the partitions share no row, hold one row for each entry that is
  not skipped, and their model ids are those of the entries that are not skipped.
\<close>

theorem only_LEGACY_is_skipped:
  "(\<forall>(k, i) \<in> set md.
      (lifecycle_status (full_model i) = ''LEGACY'' \<longleftrightarrow>
         (\<exists>lc. modelLifecycle (payload (full_model i)) = Some lc \<and> status lc = Some ''LEGACY'')) \<and>
      (lifecycle_status (full_model i) \<noteq> ''LEGACY'' \<longrightarrow>
         (make_row k i \<in> set (fst (find_beta_models lower md html))) \<noteq>
         (make_row k i \<in> set (snd (find_beta_models lower md html))))) \<and>
   set (fst (find_beta_models lower md html)) \<inter> set (snd (find_beta_models lower md html)) = {} \<and>
   length (fst (find_beta_models lower md html)) + length (snd (find_beta_models lower md html)) =
     length (filter (\<lambda>(k, i). lifecycle_status (full_model i) \<noteq> ''LEGACY'') md) \<and>
   (row_id ` (set (fst (find_beta_models lower md html)) \<union> set (snd (find_beta_models lower md html))) =
        {k. \<exists>i. (k, i) \<in> set md \<and> lifecycle_status (full_model i) \<noteq> ''LEGACY''})"
proof (intro conjI)
  have same: "name i' = name i" if "make_row k i = make_row k' i'" for k k' i i'
  proof -
    from that have "row_name (make_row k i) = row_name (make_row k' i')" by simp
    then show ?thesis by (simp add: make_row_name)
  qed
  show disj: "set (fst (find_beta_models lower md html)) \<inter> set (snd (find_beta_models lower md html)) = {}"
  proof -
    have False if "r \<in> set (fst (find_beta_models lower md html))"
      and "r \<in> set (snd (find_beta_models lower md html))" for r
    proof -
      from that(1) obtain k i where 1: "r = make_row k i" "\<not> name_matches lower html (name i)"
        unfolding in_beta_iff by blast
      from that(2) obtain k' i' where 2: "r = make_row k' i'" "name_matches lower html (name i')"
        unfolding in_found_iff by blast
      from 1(1) 2(1) have "name i' = name i" using same by metis
      with 1(2) 2(2) show False by simp
    qed
    then show ?thesis by blast
  qed
  show "\<forall>(k, i) \<in> set md.
      (lifecycle_status (full_model i) = ''LEGACY'' \<longleftrightarrow>
         (\<exists>lc. modelLifecycle (payload (full_model i)) = Some lc \<and> status lc = Some ''LEGACY'')) \<and>
      (lifecycle_status (full_model i) \<noteq> ''LEGACY'' \<longrightarrow>
         (make_row k i \<in> set (fst (find_beta_models lower md html))) \<noteq>
         (make_row k i \<in> set (snd (find_beta_models lower md html))))"
  proof (intro ballI, clarify, intro conjI impI)
    fix k i assume in_md: "(k, i) \<in> set md"
    show "lifecycle_status (full_model i) = ''LEGACY'' \<longleftrightarrow>
         (\<exists>lc. modelLifecycle (payload (full_model i)) = Some lc \<and> status lc = Some ''LEGACY'')"
      by (rule lifecycle_status_LEGACY_iff)
    assume "lifecycle_status (full_model i) \<noteq> ''LEGACY''"
    then have nl: "\<not> is_legacy i" by (simp add: is_legacy_def)
    have "make_row k i \<in> set (fst (find_beta_models lower md html)) \<or>
          make_row k i \<in> set (snd (find_beta_models lower md html))"
      unfolding in_beta_iff in_found_iff using in_md nl by blast
    with disj show "(make_row k i \<in> set (fst (find_beta_models lower md html))) \<noteq>
         (make_row k i \<in> set (snd (find_beta_models lower md html)))" by blast
  qed
  have split: "length (filter (\<lambda>x. P x \<and> \<not> Q x) xs) + length (filter (\<lambda>x. P x \<and> Q x) xs) =
     length (filter P xs)" for P Q :: "'a \<Rightarrow> bool" and xs
    by (induction xs) auto
  have "length (fst (find_beta_models lower md html)) + length (snd (find_beta_models lower md html)) =
     length (filter (\<lambda>x. \<not> is_legacy (snd x)) md)"
    using split [of "\<lambda>x. \<not> is_legacy (snd x)" "\<lambda>x. name_matches lower html (name (snd x))" md]
    by (simp add: beta_partition found_partition case_prod_unfold)
  then show "length (fst (find_beta_models lower md html)) + length (snd (find_beta_models lower md html)) =
     length (filter (\<lambda>(k, i). lifecycle_status (full_model i) \<noteq> ''LEGACY'') md)"
    by (simp add: is_legacy_def case_prod_unfold)
  show "row_id ` (set (fst (find_beta_models lower md html)) \<union> set (snd (find_beta_models lower md html))) =
        {k. \<exists>i. (k, i) \<in> set md \<and> lifecycle_status (full_model i) \<noteq> ''LEGACY''}"
  proof (intro set_eqI iffI)
    fix k assume "k \<in> row_id ` (set (fst (find_beta_models lower md html)) \<union> set (snd (find_beta_models lower md html)))"
    then obtain r where "r \<in> set (fst (find_beta_models lower md html)) \<union> set (snd (find_beta_models lower md html))"
      and "row_id r = k" by blast
    then obtain k' i' where "(k', i') \<in> set md" "r = make_row k' i'" "\<not> is_legacy i'"
      unfolding Un_iff in_beta_iff in_found_iff by blast
    with \<open>row_id r = k\<close> have "(k, i') \<in> set md \<and> lifecycle_status (full_model i') \<noteq> ''LEGACY''"
      by (simp add: make_row_id is_legacy_def)
    then show "k \<in> {k. \<exists>i. (k, i) \<in> set md \<and> lifecycle_status (full_model i) \<noteq> ''LEGACY''}"
      by blast
  next
    fix k assume "k \<in> {k. \<exists>i. (k, i) \<in> set md \<and> lifecycle_status (full_model i) \<noteq> ''LEGACY''}"
    then obtain i where in_md: "(k, i) \<in> set md" and nl: "\<not> is_legacy i"
      by (auto simp: is_legacy_def)
    then have "make_row k i \<in> set (fst (find_beta_models lower md html)) \<union> set (snd (find_beta_models lower md html))"
      unfolding Un_iff in_beta_iff in_found_iff by blast
    then have "row_id (make_row k i) \<in> row_id ` (set (fst (find_beta_models lower md html)) \<union> set (snd (find_beta_models lower md html)))"
      by (rule imageI)
    then show "k \<in> row_id ` (set (fst (find_beta_models lower md html)) \<union> set (snd (find_beta_models lower md html)))"
      by (simp only: make_row_id)
  qed
qed

theorem only_LEGACY_is_skipped_witness:
  "(''m2'', example_info ''m2'' (pystr_of ''Old Model'') ''legacy'') \<in> set lifecycle_examples \<and>
   lifecycle_status (full_model (example_info ''m2'' (pystr_of ''Old Model'') ''legacy'')) \<noteq> ''LEGACY'' \<and>
   (make_row ''m2'' (example_info ''m2'' (pystr_of ''Old Model'') ''legacy'')
      \<in> set (fst (find_beta_models ascii_lower lifecycle_examples (pystr_of ''the Old Model page'')))) \<noteq>
   (make_row ''m2'' (example_info ''m2'' (pystr_of ''Old Model'') ''legacy'')
      \<in> set (snd (find_beta_models ascii_lower lifecycle_examples (pystr_of ''the Old Model page''))))"
proof -
  have h1: "(''m2'', example_info ''m2'' (pystr_of ''Old Model'') ''legacy'') \<in> set lifecycle_examples"
    by (simp add: lifecycle_examples_def)
  have h2: "lifecycle_status (full_model (example_info ''m2'' (pystr_of ''Old Model'') ''legacy'')) \<noteq> ''LEGACY''"
    by (simp add: example_info_def example_entry_def lifecycle_status_def)
  from only_LEGACY_is_skipped [where md = lifecycle_examples and lower = ascii_lower
      and html = "pystr_of ''the Old Model page''"]
  have "\<forall>(k, i) \<in> set lifecycle_examples.
      (lifecycle_status (full_model i) = ''LEGACY'' \<longleftrightarrow>
         (\<exists>lc. modelLifecycle (payload (full_model i)) = Some lc \<and> status lc = Some ''LEGACY'')) \<and>
      (lifecycle_status (full_model i) \<noteq> ''LEGACY'' \<longrightarrow>
         (make_row k i \<in> set (fst (find_beta_models ascii_lower lifecycle_examples (pystr_of ''the Old Model page'')))) \<noteq>
         (make_row k i \<in> set (snd (find_beta_models ascii_lower lifecycle_examples (pystr_of ''the Old Model page'')))))"
    by (rule conjunct1)
  from bspec [OF this h1] h2
  have "(make_row ''m2'' (example_info ''m2'' (pystr_of ''Old Model'') ''legacy'')
      \<in> set (fst (find_beta_models ascii_lower lifecycle_examples (pystr_of ''the Old Model page'')))) \<noteq>
   (make_row ''m2'' (example_info ''m2'' (pystr_of ''Old Model'') ''legacy'')
      \<in> set (snd (find_beta_models ascii_lower lifecycle_examples (pystr_of ''the Old Model page''))))"
    by simp
  with h1 h2 show ?thesis by (intro conjI)
qed

section \<open>Properties of the Catalog Merger\<close>

subsection \<open>Dictionaries and the loop body\<close>

lemma map_of_dict_set: "map_of (dict_set d k v) = (map_of d)(k \<mapsto> v)"
  by (induction d k v rule: dict_set.induct) auto

lemma keys_dict_set:
  "map fst (dict_set d k v) = (if map_of d k = None then map fst d @ [k] else map fst d)"
  by (induction d k v rule: dict_set.induct) auto

lemma map_of_None_iff: "map_of d k = None \<longleftrightarrow> k \<notin> fst ` set d"
  by (simp add: map_of_eq_None_iff)

lemma map_of_collect_model:
  "map_of (collect_model r c d) k =
     (if modelId d = Some k \<and> k \<noteq> []
      then Some (case map_of c k of
                   None \<Rightarrow> \<lparr>payload = d, regions = [r]\<rparr>
                 | Some e \<Rightarrow> if r \<in> set (regions e) then e
                            else e\<lparr>regions := regions e @ [r]\<rparr>)
      else map_of c k)"
  by (auto simp: collect_model_def map_of_dict_set split: option.splits)

lemma keys_collect_model:
  "map fst (collect_model r c d) =
     (case modelId d of
        None \<Rightarrow> map fst c
      | Some k \<Rightarrow> if k \<noteq> [] \<and> map_of c k = None then map fst c @ [k] else map fst c)"
  by (auto simp: collect_model_def keys_dict_set split: option.splits)

lemma payloads_dict_set:
  "map_of c k = Some e \<Longrightarrow> payload e' = payload e \<Longrightarrow>
   map (\<lambda>(k, e). (k, payload e)) (dict_set c k e') = map (\<lambda>(k, e). (k, payload e)) c"
  by (induction c k e' rule: dict_set.induct) (auto split: if_splits)

lemma payloads_collect_model:
  assumes "map_of c k = Some e" and "modelId d = Some k"
  shows "map (\<lambda>(k, e). (k, payload e)) (collect_model r c d) = map (\<lambda>(k, e). (k, payload e)) c"
  using assms by (simp add: collect_model_def payloads_dict_set)

lemma collect_model_no_id: "modelId d = None \<Longrightarrow> collect_model r c d = c"
  by (simp add: collect_model_def)

lemma collect_models_drop_no_id:
  "collect_models r c ms = collect_models r c (filter (\<lambda>d. modelId d \<noteq> None) ms)"
  unfolding collect_models_def
  by (induction ms arbitrary: c) (simp_all add: collect_model_no_id)

lemma collect_model_grows:
  assumes "map_of c k = Some e"
  shows "\<exists>e'. map_of (collect_model r c d) k = Some e' \<and> payload e' = payload e \<and>
              (regions e' = regions e \<or> regions e' = regions e @ [r])"
  using assms by (simp add: map_of_collect_model)

subsection \<open>The invariant\<close>

lemma catalog_inv_Nil: "catalog_inv []"
  by (simp add: catalog_inv_def)

lemma catalog_inv_iff:
  "catalog_inv c \<longleftrightarrow>
     distinct (map fst c) \<and>
     (\<forall>k e. map_of c k = Some e \<longrightarrow> modelId (payload e) = Some k \<and> distinct (regions e))"
proof (cases "distinct (map fst c)")
  case True
  then have "(k, e) \<in> set c \<longleftrightarrow> map_of c k = Some e" for k e by simp
  then show ?thesis using True by (auto simp: catalog_inv_def)
next
  case False
  then show ?thesis by (simp add: catalog_inv_def)
qed

lemma catalog_inv_collect_model:
  assumes "catalog_inv c"
  shows "catalog_inv (collect_model r c d)"
proof -
  from assms have dist: "distinct (map fst c)"
    and ent: "\<And>k e. map_of c k = Some e \<Longrightarrow> modelId (payload e) = Some k \<and> distinct (regions e)"
    by (simp_all add: catalog_inv_iff)
  have "distinct (map fst (collect_model r c d))"
    using dist by (auto simp: keys_collect_model map_of_None_iff split: option.splits)
  moreover have "modelId (payload e') = Some k \<and> distinct (regions e')"
    if "map_of (collect_model r c d) k = Some e'" for k e'
  proof (cases "modelId d = Some k \<and> k \<noteq> []")
    case False
    with that have "map_of c k = Some e'" by (simp add: map_of_collect_model)
    then show ?thesis by (rule ent)
  next
    case True
    show ?thesis
    proof (cases "map_of c k")
      case None
      with that True have "e' = \<lparr>payload = d, regions = [r]\<rparr>"
        by (simp add: map_of_collect_model)
      with True show ?thesis by simp
    next
      case (Some e)
      with that True have "e' = (if r \<in> set (regions e) then e else e\<lparr>regions := regions e @ [r]\<rparr>)"
        by (simp add: map_of_collect_model)
      with ent [OF Some] show ?thesis by auto
    qed
  qed
  ultimately show ?thesis by (simp add: catalog_inv_iff)
qed

lemma catalog_inv_collect_models:
  "catalog_inv c \<Longrightarrow> catalog_inv (collect_models r c ms)"
  unfolding collect_models_def
  by (induction ms arbitrary: c) (simp_all add: catalog_inv_collect_model)

lemma catalog_inv_collect_regions:
  "catalog_inv c \<Longrightarrow> catalog_inv (collect_regions c fetched)"
  unfolding collect_regions_def
  by (induction fetched arbitrary: c) (auto simp: catalog_inv_collect_models)

lemma catalog_inv_loop:
  "catalog_inv (models_by_id self) \<Longrightarrow>
   catalog_inv (models_by_id (snd (collect_models_loop svc rs self)))"
proof (induction rs arbitrary: self)
  case Nil
  then show ?case by simp
next
  case (Cons r rs)
  obtain res s where f: "fetch_models_from_region svc r self = (res, s)"
    by (cases "fetch_models_from_region svc r self")
  then have same: "models_by_id s = models_by_id self"
    by (auto simp: fetch_models_from_region_def split: prod.splits sum.splits)
  show ?case
  proof (cases res)
    case (Inl e)
    with f same Cons.prems show ?thesis by simp
  next
    case (Inr ms)
    have "catalog_inv (models_by_id (s\<lparr>models_by_id := collect_models r (models_by_id s) ms\<rparr>))"
      using Cons.prems same by (simp add: catalog_inv_collect_models)
    from Cons.IH [OF this] f Inr show ?thesis by simp
  qed
qed

lemma catalog_inv_ids:
  assumes "catalog_inv c"
  shows "distinct (map (\<lambda>e. modelId (payload e)) (map snd c))"
proof -
  from assms have eq: "map (\<lambda>e. modelId (payload e)) (map snd c) = map Some (map fst c)"
    by (auto simp: catalog_inv_def)
  have some: "distinct (map Some ks)" if "distinct ks" for ks :: "string list"
    using that by (simp add: distinct_map)
  from assms have "distinct (map fst c)" by (simp add: catalog_inv_def)
  then have "distinct (map Some (map fst c))" by (rule some)
  then show ?thesis by (simp only: eq)
qed

subsection \<open>Regions in the order of first sighting\<close>

lemma first_seen_snoc:
  "first_seen (xs @ [x]) = (if x \<in> set xs then first_seen xs else first_seen xs @ [x])"
  by (simp add: first_seen_def)

lemma set_first_seen: "set (first_seen xs) = set xs"
  by (simp add: first_seen_def)

lemma distinct_first_seen: "distinct (first_seen xs)"
  by (simp add: first_seen_def)

lemma collect_models_steps:
  "collect_models r c ms = foldl collect_step c (map (Pair r) ms)"
  unfolding collect_models_def
  by (induction ms arbitrary: c) (simp_all add: collect_step_def)

lemma collect_regions_steps:
  "collect_regions c fetched = foldl collect_step c (sightings fetched)"
  unfolding collect_regions_def sightings_def
  by (induction fetched arbitrary: c) (auto simp: collect_models_steps)

lemma loop_is_collect_regions:
  "collect_models_loop svc rs self = (Inr (), self') \<Longrightarrow>
   \<exists>fetched. map fst fetched = rs \<and>
     models_by_id self' = collect_regions (models_by_id self) fetched"
proof (induction rs arbitrary: self)
  case Nil
  then have "models_by_id self' = collect_regions (models_by_id self) []"
    by (simp add: collect_regions_def)
  then show ?case by simp
next
  case (Cons r rs)
  obtain res s where f: "fetch_models_from_region svc r self = (res, s)"
    by (cases "fetch_models_from_region svc r self")
  then have same: "models_by_id s = models_by_id self"
    by (auto simp: fetch_models_from_region_def split: prod.splits sum.splits)
  show ?case
  proof (cases res)
    case (Inl e)
    with f Cons.prems show ?thesis by simp
  next
    case (Inr ms)
    let ?s = "s\<lparr>models_by_id := collect_models r (models_by_id s) ms\<rparr>"
    from f Inr Cons.prems have "collect_models_loop svc rs ?s = (Inr (), self')" by simp
    from Cons.IH [OF this] obtain fetched where m: "map fst fetched = rs"
      and c: "models_by_id self' = collect_regions (models_by_id ?s) fetched" by blast
    from c same have "models_by_id self' = collect_regions (models_by_id self) ((r, ms) # fetched)"
      by (simp add: collect_regions_def)
    moreover from m have "map fst ((r, ms) # fetched) = r # rs" by simp
    ultimately have "map fst ((r, ms) # fetched) = r # rs \<and>
        models_by_id self' = collect_regions (models_by_id self) ((r, ms) # fetched)"
      by simp
    then show ?thesis by (rule exI)
  qed
qed

lemma lookup_steps:
  assumes "k \<noteq> []"
  shows "map_of (foldl collect_step [] steps) k =
     (case filter (\<lambda>(r, d). modelId d = Some k) steps of
        [] \<Rightarrow> None
      | s # _ \<Rightarrow> Some \<lparr>payload = snd s,
                        regions = first_seen (map fst (filter (\<lambda>(r, d). modelId d = Some k) steps))\<rparr>)"
proof (induction steps rule: rev_induct)
  case Nil
  show ?case by simp
next
  case (snoc s steps)
  obtain r d where s: "s = (r, d)" by (cases s)
  let ?c = "foldl collect_step [] steps"
  let ?f = "filter (\<lambda>(r, d). modelId d = Some k) steps"
  have step: "map_of (foldl collect_step [] (steps @ [s])) k = map_of (collect_model r ?c d) k"
    by (simp add: s collect_step_def)
  show ?case
  proof (cases "modelId d = Some k")
    case False
    then have filt: "filter (\<lambda>(r, d). modelId d = Some k) (steps @ [s]) = ?f"
      by (simp add: s)
    from False have "map_of (collect_model r ?c d) k = map_of ?c k"
      by (simp add: map_of_collect_model)
    with step have "map_of (foldl collect_step [] (steps @ [s])) k = map_of ?c k"
      by simp
    then show ?thesis unfolding filt snoc.IH .
  next
    case True
    then have filt: "filter (\<lambda>(r, d). modelId d = Some k) (steps @ [s]) = ?f @ [s]"
      by (simp add: s)
    show ?thesis
    proof (cases ?f)
      case Nil
      with snoc.IH have "map_of ?c k = None" by simp
      then have "map_of (collect_model r ?c d) k = Some \<lparr>payload = d, regions = [r]\<rparr>"
        using True assms by (simp add: map_of_collect_model)
      with step have "map_of (foldl collect_step [] (steps @ [s])) k =
          Some \<lparr>payload = d, regions = [r]\<rparr>" by simp
      then show ?thesis unfolding filt Nil by (simp add: s first_seen_def)
    next
      case (Cons s0 rest)
      let ?rs = "map fst ?f"
      from Cons snoc.IH have old: "map_of ?c k = Some \<lparr>payload = snd s0, regions = first_seen ?rs\<rparr>"
        by simp
      have "map_of (collect_model r ?c d) k =
              Some \<lparr>payload = snd s0, regions = first_seen (?rs @ [r])\<rparr>"
        using True assms old by (simp add: map_of_collect_model first_seen_snoc set_first_seen)
      with step have new: "map_of (foldl collect_step [] (steps @ [s])) k =
              Some \<lparr>payload = snd s0, regions = first_seen (?rs @ [r])\<rparr>" by simp
      have "map fst (?f @ [s]) = ?rs @ [r]" by (simp add: s)
      then show ?thesis unfolding filt new by (simp add: Cons)
    qed
  qed
qed

lemma lookup_steps_empty_key:
  "map_of (foldl collect_step c steps) [] = map_of c []"
  by (induction steps arbitrary: c) (simp_all add: collect_step_def map_of_collect_model)

lemma regions_collect_regions:
  assumes "(k, e) \<in> set (collect_regions [] fetched)"
  shows "regions e = first_seen (map fst (sightings_of k fetched))"
proof -
  have inv: "catalog_inv (collect_regions [] fetched)"
    by (simp add: catalog_inv_collect_regions catalog_inv_Nil)
  then have "distinct (map fst (collect_regions [] fetched))" by (simp add: catalog_inv_def)
  with assms have look: "map_of (foldl collect_step [] (sightings fetched)) k = Some e"
    by (simp add: collect_regions_steps)
  have "k \<noteq> []"
  proof
    assume "k = []"
    with look show False by (simp add: lookup_steps_empty_key)
  qed
  from lookup_steps [OF this, of "sightings fetched"] look show ?thesis
    by (auto simp: sightings_of_def split: list.splits)
qed

text \<open>
  Claim C3: the catalog starts with the invariant and every run of the loop body keeps
  it: one entry for each model id, stored under the id of its payload, and no region
  twice in an entry. A step leaves every entry in the catalog, with its payload, and its
  regions as they were or with the region of the step added at the end. So the invariant
  holds after \<^verbatim>\<open>deduplicate_and_collect_models\<close>, whatever the service answers, and
  for every sequence of fetched lists the entries have distinct model ids and list their
  regions, each once, in the order in which the model was first sighted there; a
  model id other than the empty string has an entry exactly when some region reported
  it.
\<close>

theorem catalog_invariant_preserved:
  "catalog_inv [] \<and>
   (catalog_inv c \<longrightarrow> catalog_inv (collect_model r c d)) \<and>
   (\<forall>k e. map_of c k = Some e \<longrightarrow>
      (\<exists>e'. map_of (collect_model r c d) k = Some e' \<and> payload e' = payload e \<and>
            (regions e' = regions e \<or> regions e' = regions e @ [r]))) \<and>
   (catalog_inv (models_by_id self) \<longrightarrow>
      catalog_inv (models_by_id (snd (deduplicate_and_collect_models svc self)))) \<and>
   catalog_inv (collect_regions [] fetched) \<and>
   distinct (map (\<lambda>e. modelId (payload e)) (map snd (collect_regions [] fetched))) \<and>
   (\<forall>(k, e) \<in> set (collect_regions [] fetched).
      distinct (regions e) \<and> regions e = first_seen (map fst (sightings_of k fetched))) \<and>
   (\<forall>k. k \<noteq> [] \<longrightarrow>
      (map_of (collect_regions [] fetched) k \<noteq> None \<longleftrightarrow> sightings_of k fetched \<noteq> []))"
proof (intro conjI)
  show "\<forall>k. k \<noteq> [] \<longrightarrow>
      (map_of (collect_regions [] fetched) k \<noteq> None \<longleftrightarrow> sightings_of k fetched \<noteq> [])"
  proof (intro allI impI)
    fix k :: string assume "k \<noteq> []"
    from lookup_steps [OF this, of "sightings fetched"]
    show "map_of (collect_regions [] fetched) k \<noteq> None \<longleftrightarrow> sightings_of k fetched \<noteq> []"
      unfolding collect_regions_steps sightings_of_def by (simp split: list.splits)
  qed
  show "catalog_inv []" by (rule catalog_inv_Nil)
  show "catalog_inv c \<longrightarrow> catalog_inv (collect_model r c d)"
    by (simp add: catalog_inv_collect_model)
  show "\<forall>k e. map_of c k = Some e \<longrightarrow>
      (\<exists>e'. map_of (collect_model r c d) k = Some e' \<and> payload e' = payload e \<and>
            (regions e' = regions e \<or> regions e' = regions e @ [r]))"
    using collect_model_grows by blast
  show "catalog_inv (models_by_id self) \<longrightarrow>
      catalog_inv (models_by_id (snd (deduplicate_and_collect_models svc self)))"
    by (simp add: deduplicate_and_collect_models_def catalog_inv_loop)
  show inv: "catalog_inv (collect_regions [] fetched)"
    by (simp add: catalog_inv_collect_regions catalog_inv_Nil)
  then show "distinct (map (\<lambda>e. modelId (payload e)) (map snd (collect_regions [] fetched)))"
    by (rule catalog_inv_ids)
  show "\<forall>(k, e) \<in> set (collect_regions [] fetched).
      distinct (regions e) \<and> regions e = first_seen (map fst (sightings_of k fetched))"
  proof (intro ballI, clarify)
    fix k e assume "(k, e) \<in> set (collect_regions [] fetched)"
    then have "regions e = first_seen (map fst (sightings_of k fetched))"
      by (rule regions_collect_regions)
    then show "distinct (regions e) \<and> regions e = first_seen (map fst (sightings_of k fetched))"
      by (simp add: distinct_first_seen)
  qed
qed

theorem catalog_invariant_preserved_witness:
  "catalog_inv scenario_A_catalog \<and>
   catalog_inv (collect_model ''b'' scenario_A_catalog scenario_A_second) \<and>
   collect_model ''b'' scenario_A_catalog scenario_A_second =
     [(''m1'', \<lparr>payload = scenario_A_first, regions = [''a'', ''b'']\<rparr>)]"
proof -
  have h: "catalog_inv scenario_A_catalog"
    by (simp add: catalog_inv_def scenario_A_catalog_def scenario_A_first_def)
  from catalog_invariant_preserved [of scenario_A_catalog "''b''" scenario_A_second]
  have "catalog_inv scenario_A_catalog \<longrightarrow>
          catalog_inv (collect_model ''b'' scenario_A_catalog scenario_A_second)"
    by blast
  with h have c: "catalog_inv (collect_model ''b'' scenario_A_catalog scenario_A_second)" by simp
  have v: "collect_model ''b'' scenario_A_catalog scenario_A_second =
     [(''m1'', \<lparr>payload = scenario_A_first, regions = [''a'', ''b'']\<rparr>)]"
    by (simp add: collect_model_def scenario_A_catalog_def scenario_A_first_def
        scenario_A_second_def)
  from h c v show ?thesis by (intro conjI)
qed

subsection \<open>The first payload stays\<close>

text \<open>
  Claim C4: a descriptor whose model id the catalog already holds adds no entry and
  changes no payload; the entry of that id keeps its regions or gets the new region at
  the end, and every other entry is as it was. In scenario A the catalog ends with the one
  entry \<^verbatim>\<open>m1\<close>, named \<^verbatim>\<open>Foo\<close>, with regions \<^verbatim>\<open>a\<close>, \<^verbatim>\<open>b\<close>.
\<close>

lemma scenario_A_run:
  "run scenario_A_service ''data'' (init_collector ()) =
     (0,
      [((''data'', ''models.json''),
          ModelsDoc [\<lparr>payload = scenario_A_first, regions = [''a'', ''b'']\<rparr>]),
       ((''data'', ''profiles.json''), ProfilesDoc [])],
      \<lparr>session = (), supported_regions = [''a'', ''b''],
       models_by_id = [(''m1'', \<lparr>payload = scenario_A_first, regions = [''a'', ''b'']\<rparr>)],
       profiles_list = []\<rparr>)"
  by (simp add: run_def discover_bedrock_regions_def deduplicate_and_collect_models_def
      collect_and_flatten_profiles_def fetch_models_from_region_def fetch_profiles_from_region_def
      scenario_A_service_def init_collector_def collect_models_def collect_model_def
      scenario_A_first_def scenario_A_second_def save_data_def flatten_profiles_def)

theorem first_payload_wins:
  "(map_of c k = Some e \<and> modelId d = Some k \<longrightarrow>
      map (\<lambda>(k, e). (k, payload e)) (collect_model r c d) = map (\<lambda>(k, e). (k, payload e)) c \<and>
      (\<exists>e'. map_of (collect_model r c d) k = Some e' \<and> payload e' = payload e \<and>
            (regions e' = regions e \<or> regions e' = regions e @ [r])) \<and>
      (\<forall>k'. k' \<noteq> k \<longrightarrow> map_of (collect_model r c d) k' = map_of c k')) \<and>
   collect_regions [] [(''a'', [scenario_A_first]), (''b'', [scenario_A_second])] =
     [(''m1'', \<lparr>payload = scenario_A_first, regions = [''a'', ''b'']\<rparr>)] \<and>
   modelName scenario_A_first = Some (pystr_of ''Foo'') \<and>
   models_by_id (snd (deduplicate_and_collect_models scenario_A_service
        ((init_collector ())\<lparr>supported_regions := [''a'', ''b'']\<rparr>))) =
     [(''m1'', \<lparr>payload = scenario_A_first, regions = [''a'', ''b'']\<rparr>)]"
proof (intro conjI impI)
  assume h: "map_of c k = Some e \<and> modelId d = Some k"
  then have h1: "map_of c k = Some e" and h2: "modelId d = Some k" by simp_all
  show "map (\<lambda>(k, e). (k, payload e)) (collect_model r c d) = map (\<lambda>(k, e). (k, payload e)) c"
    by (rule payloads_collect_model [OF h1 h2])
  show "\<exists>e'. map_of (collect_model r c d) k = Some e' \<and> payload e' = payload e \<and>
            (regions e' = regions e \<or> regions e' = regions e @ [r])"
    by (rule collect_model_grows [OF h1])
  show "\<forall>k'. k' \<noteq> k \<longrightarrow> map_of (collect_model r c d) k' = map_of c k'"
    using h2 by (simp add: map_of_collect_model)
next
  show "collect_regions [] [(''a'', [scenario_A_first]), (''b'', [scenario_A_second])] =
     [(''m1'', \<lparr>payload = scenario_A_first, regions = [''a'', ''b'']\<rparr>)]"
    by (simp add: collect_regions_def collect_models_def collect_model_def
        scenario_A_first_def scenario_A_second_def)
  show "modelName scenario_A_first = Some (pystr_of ''Foo'')" by (simp add: scenario_A_first_def)
  show "models_by_id (snd (deduplicate_and_collect_models scenario_A_service
        ((init_collector ())\<lparr>supported_regions := [''a'', ''b'']\<rparr>))) =
     [(''m1'', \<lparr>payload = scenario_A_first, regions = [''a'', ''b'']\<rparr>)]"
    by (simp add: deduplicate_and_collect_models_def fetch_models_from_region_def
      scenario_A_service_def init_collector_def collect_models_def collect_model_def
      scenario_A_first_def scenario_A_second_def)
qed

theorem first_payload_wins_witness:
  "map_of scenario_A_catalog ''m1'' = Some \<lparr>payload = scenario_A_first, regions = [''a'']\<rparr> \<and>
   modelId scenario_A_second = Some ''m1'' \<and>
   map (\<lambda>(k, e). (k, payload e)) (collect_model ''b'' scenario_A_catalog scenario_A_second) =
     [(''m1'', scenario_A_first)]"
proof -
  have h1: "map_of scenario_A_catalog ''m1'' = Some \<lparr>payload = scenario_A_first, regions = [''a'']\<rparr>"
    by (simp add: scenario_A_catalog_def)
  have h2: "modelId scenario_A_second = Some ''m1''"
    by (simp add: scenario_A_second_def)
  from first_payload_wins [of scenario_A_catalog "''m1''" "\<lparr>payload = scenario_A_first, regions = [''a'']\<rparr>"
      scenario_A_second "''b''"] h1 h2
  have "map (\<lambda>(k, e). (k, payload e)) (collect_model ''b'' scenario_A_catalog scenario_A_second) =
          map (\<lambda>(k, e). (k, payload e)) scenario_A_catalog"
    by blast
  then have "map (\<lambda>(k, e). (k, payload e)) (collect_model ''b'' scenario_A_catalog scenario_A_second) =
     [(''m1'', scenario_A_first)]"
    by (simp add: scenario_A_catalog_def)
  with h1 h2 show ?thesis by (intro conjI)
qed

subsection \<open>Descriptors without a model id\<close>

text \<open>
  Claim C8: a descriptor without \<^verbatim>\<open>modelId\<close> leaves the catalog as it is; a
  list of descriptors gives the catalog that it gives with these descriptors removed;
  every entry of a catalog built from nothing carries a model id; and once the fetch of a
  region has returned, the loop over that region ends without an exception, whatever the
  list holds.
\<close>

theorem descriptor_without_id_dropped:
  "(modelId d = None \<longrightarrow> collect_model r c d = c) \<and>
   collect_models r c ms = collect_models r c (filter (\<lambda>d. modelId d \<noteq> None) ms) \<and>
   (\<forall>(k, e) \<in> set (collect_regions [] fetched). modelId (payload e) = Some k) \<and>
   (fetch_models_from_region svc r self = (Inr ms, self') \<longrightarrow>
      collect_models_loop svc [r] self =
        (Inr (), self'\<lparr>models_by_id :=
           collect_models r (models_by_id self') (filter (\<lambda>d. modelId d \<noteq> None) ms)\<rparr>))"
proof (intro conjI)
  show "modelId d = None \<longrightarrow> collect_model r c d = c"
    by (simp add: collect_model_no_id)
  show "collect_models r c ms = collect_models r c (filter (\<lambda>d. modelId d \<noteq> None) ms)"
    by (rule collect_models_drop_no_id)
  have "catalog_inv (collect_regions [] fetched)"
    by (simp add: catalog_inv_collect_regions catalog_inv_Nil)
  then show "\<forall>(k, e) \<in> set (collect_regions [] fetched). modelId (payload e) = Some k"
    by (auto simp: catalog_inv_def)
  show "fetch_models_from_region svc r self = (Inr ms, self') \<longrightarrow>
      collect_models_loop svc [r] self =
        (Inr (), self'\<lparr>models_by_id :=
           collect_models r (models_by_id self') (filter (\<lambda>d. modelId d \<noteq> None) ms)\<rparr>)"
    using collect_models_drop_no_id [of r "models_by_id self'" ms] by simp
qed

theorem descriptor_without_id_dropped_witness:
  "modelId no_id_descriptor = None \<and>
   collect_model ''a'' scenario_A_catalog no_id_descriptor = scenario_A_catalog \<and>
   collect_models ''a'' [] [no_id_descriptor, scenario_A_first, no_id_descriptor] =
     [(''m1'', \<lparr>payload = scenario_A_first, regions = [''a'']\<rparr>)]"
proof -
  have h: "modelId no_id_descriptor = None" by (simp add: no_id_descriptor_def)
  from descriptor_without_id_dropped [of no_id_descriptor "''a''" scenario_A_catalog] h
  have 1: "collect_model ''a'' scenario_A_catalog no_id_descriptor = scenario_A_catalog"
    by blast
  have 2: "collect_models ''a'' [] [no_id_descriptor, scenario_A_first, no_id_descriptor] =
     [(''m1'', \<lparr>payload = scenario_A_first, regions = [''a'']\<rparr>)]"
    by (simp add: collect_models_def collect_model_def no_id_descriptor_def scenario_A_first_def)
  from h 1 2 show ?thesis by (intro conjI)
qed

subsection \<open>Merging a list twice\<close>

lemma seen_in_collect_model: "seen_in r c k \<Longrightarrow> seen_in r (collect_model r' c d) k"
  by (auto simp: seen_in_def map_of_collect_model split: option.splits)

lemma seen_in_collect_models: "seen_in r c k \<Longrightarrow> seen_in r (collect_models r' c ms) k"
  unfolding collect_models_def
  by (induction ms arbitrary: c) (simp_all add: seen_in_collect_model)

lemma seen_in_after_step:
  "modelId d = Some k \<Longrightarrow> k \<noteq> [] \<Longrightarrow> seen_in r (collect_model r c d) k"
  by (auto simp: seen_in_def map_of_collect_model split: option.splits)

lemma seen_in_after_collect:
  "d \<in> set ms \<Longrightarrow> modelId d = Some k \<Longrightarrow> k \<noteq> [] \<Longrightarrow> seen_in r (collect_models r c ms) k"
proof (induction ms arbitrary: c)
  case Nil
  then show ?case by simp
next
  case (Cons m ms)
  have unfold: "collect_models r c (m # ms) = collect_models r (collect_model r c m) ms"
    by (simp add: collect_models_def)
  show ?case
  proof (cases "d = m")
    case True
    with Cons.prems have "seen_in r (collect_model r c m) k" by (simp add: seen_in_after_step)
    then show ?thesis unfolding unfold by (rule seen_in_collect_models)
  next
    case False
    with Cons.prems have "d \<in> set ms" by simp
    from Cons.IH [OF this Cons.prems(2,3)] show ?thesis unfolding unfold .
  qed
qed

lemma collect_model_seen: 
  assumes "\<And>k. modelId d = Some k \<Longrightarrow> k \<noteq> [] \<Longrightarrow> seen_in r c k"
  shows "collect_model r c d = c"
proof (cases "modelId d")
  case None
  then show ?thesis by (simp add: collect_model_def)
next
  case (Some k)
  show ?thesis
  proof (cases "k = []")
    case True
    with Some show ?thesis by (simp add: collect_model_def)
  next
    case False
    from assms [OF Some False] Some False show ?thesis
      by (auto simp: seen_in_def collect_model_def split: option.splits)
  qed
qed

lemma collect_models_seen:
  assumes "\<And>d k. d \<in> set ms \<Longrightarrow> modelId d = Some k \<Longrightarrow> k \<noteq> [] \<Longrightarrow> seen_in r c k"
  shows "collect_models r c ms = c"
  using assms
proof (induction ms)
  case Nil
  show ?case by (simp add: collect_models_def)
next
  case (Cons m ms)
  have "collect_model r c m = c"
    by (rule collect_model_seen) (rule Cons.prems, simp_all)
  then have "collect_models r c (m # ms) = collect_models r c ms"
    by (simp add: collect_models_def)
  also have "\<dots> = c" by (rule Cons.IH) (rule Cons.prems, simp_all)
  finally show ?case .
qed

lemma collect_models_idem:
  "collect_models r (collect_models r c ms) ms = collect_models r c ms"
  by (rule collect_models_seen) (rule seen_in_after_collect)

lemma count_region_once:
  "distinct rs \<Longrightarrow> r \<in> set rs \<Longrightarrow> count_list rs r = 1"
  by (induction rs) auto

text \<open>
  Claim C9: merging the descriptors of a region a second time changes nothing, and
  the region is listed exactly once in every entry whose model id is in the list.
\<close>

theorem merging_twice_changes_nothing:
  "collect_models r (collect_models r c ms) ms = collect_models r c ms \<and>
   collect_regions c [(r, ms), (r, ms)] = collect_regions c [(r, ms)] \<and>
   (catalog_inv c \<longrightarrow>
      (\<forall>d \<in> set ms. \<forall>k. modelId d = Some k \<and> k \<noteq> [] \<longrightarrow>
         (\<exists>e. map_of (collect_models r (collect_models r c ms) ms) k = Some e \<and>
              count_list (regions e) r = 1)))"
proof (intro conjI impI ballI allI)
  show idem: "collect_models r (collect_models r c ms) ms = collect_models r c ms"
    by (rule collect_models_idem)
  then show "collect_regions c [(r, ms), (r, ms)] = collect_regions c [(r, ms)]"
    by (simp add: collect_regions_def)
  fix d k
  assume inv: "catalog_inv c" and d: "d \<in> set ms" and k: "modelId d = Some k \<and> k \<noteq> []"
  then have "seen_in r (collect_models r c ms) k" by (simp add: seen_in_after_collect)
  then obtain e where look: "map_of (collect_models r c ms) k = Some e" and r: "r \<in> set (regions e)"
    by (auto simp: seen_in_def split: option.splits)
  from inv have "catalog_inv (collect_models r c ms)" by (rule catalog_inv_collect_models)
  with look have "distinct (regions e)" by (simp add: catalog_inv_iff)
  with r have "count_list (regions e) r = 1" by (simp add: count_region_once)
  with look show "\<exists>e. map_of (collect_models r (collect_models r c ms) ms) k = Some e \<and>
              count_list (regions e) r = 1"
    unfolding idem by blast
qed

theorem merging_twice_changes_nothing_witness:
  "catalog_inv [] \<and> scenario_A_second \<in> set [scenario_A_first, scenario_A_second] \<and>
   modelId scenario_A_second = Some ''m1'' \<and> ''m1'' \<noteq> [] \<and>
   (\<exists>e. map_of (collect_models ''a'' (collect_models ''a'' [] [scenario_A_first, scenario_A_second])
                  [scenario_A_first, scenario_A_second]) ''m1'' = Some e \<and>
         count_list (regions e) ''a'' = 1) \<and>
   collect_models ''a'' (collect_models ''a'' [] [scenario_A_first, scenario_A_second])
       [scenario_A_first, scenario_A_second] =
     [(''m1'', \<lparr>payload = scenario_A_first, regions = [''a'']\<rparr>)]"
proof -
  have h1: "catalog_inv []" by (simp add: catalog_inv_def)
  have h2: "scenario_A_second \<in> set [scenario_A_first, scenario_A_second]" by simp
  have h3: "modelId scenario_A_second = Some ''m1''" by (simp add: scenario_A_second_def)
  have h4: "''m1'' \<noteq> []" by simp
  from merging_twice_changes_nothing [of "''a''" "[]" "[scenario_A_first, scenario_A_second]"] h1
  have "\<forall>d \<in> set [scenario_A_first, scenario_A_second]. \<forall>k. modelId d = Some k \<and> k \<noteq> [] \<longrightarrow>
         (\<exists>e. map_of (collect_models ''a'' (collect_models ''a'' [] [scenario_A_first, scenario_A_second])
                  [scenario_A_first, scenario_A_second]) k = Some e \<and>
              count_list (regions e) ''a'' = 1)"
    by blast
  from bspec [OF this h2] h3 h4
  have 5: "\<exists>e. map_of (collect_models ''a'' (collect_models ''a'' [] [scenario_A_first, scenario_A_second])
                  [scenario_A_first, scenario_A_second]) ''m1'' = Some e \<and>
         count_list (regions e) ''a'' = 1"
    by blast
  have 6: "collect_models ''a'' (collect_models ''a'' [] [scenario_A_first, scenario_A_second])
       [scenario_A_first, scenario_A_second] =
     [(''m1'', \<lparr>payload = scenario_A_first, regions = [''a'']\<rparr>)]"
    by (simp add: collect_models_def collect_model_def scenario_A_first_def scenario_A_second_def)
  from h1 h2 h3 h4 5 6 show ?thesis by (intro conjI)
qed

section \<open>Properties of the Region Prober\<close>

lemma length_probe_responses: "length (probe_responses svc rs w) = length rs"
  by (induction rs arbitrary: w) (auto split: prod.splits)

lemma probe_ok_Inl: "\<not> probe_ok (Inl e)"
  by (simp add: probe_ok_def)

lemma probe_ok_Inr: "probe_ok (Inr response) \<longleftrightarrow> modelSummaries response \<noteq> None"
  by (simp add: probe_ok_def)

lemma probe_regions_acc:
  "fst (probe_regions svc rs acc w) =
     acc @ map fst (filter (\<lambda>(r, res). probe_ok res) (zip rs (probe_responses svc rs w)))"
proof (induction rs arbitrary: acc w)
  case Nil
  show ?case by simp
next
  case (Cons r rs)
  obtain res w' where call: "list_foundation_models svc r w = (res, w')"
    by (cases "list_foundation_models svc r w")
  show ?case
  proof (cases res)
    case (Inl e)
    then have "probe_regions svc (r # rs) acc w = probe_regions svc rs acc w'"
      using call by (cases e) simp_all
    with Cons.IH [of acc w'] call Inl show ?thesis by (simp add: probe_ok_Inl)
  next
    case (Inr response)
    show ?thesis
    proof (cases "modelSummaries response = None")
      case True
      with Cons.IH [of acc w'] call Inr show ?thesis by (simp add: probe_ok_Inr)
    next
      case False
      with Cons.IH [of "acc @ [r]" w'] call Inr show ?thesis by (simp add: probe_ok_Inr)
    qed
  qed
qed

lemma probe_stateless:
  assumes "\<And>r w. list_foundation_models svc r w = (answer r, w)"
  shows "map fst (filter (\<lambda>(r, res). probe_ok res) (zip rs (probe_responses svc rs w))) =
         filter (\<lambda>r. probe_ok (answer r)) rs"
  by (induction rs) (simp_all add: assms)

text \<open>
  Claim C6: \<^verbatim>\<open>discover_bedrock_regions\<close> makes one call for each candidate and
  returns, in the order of the candidates, those whose call returned a response with the
  key \<^verbatim>\<open>modelSummaries\<close>; a call that raises drops its candidate and the loop goes
  on. For a service whose answer depends on the region only this is a filter of the
  candidates. In scenario D the result is \<^verbatim>\<open>r1\<close>, \<^verbatim>\<open>r3\<close>.
\<close>

theorem prober_keeps_supported:
  "(describe_regions svc (session self) = (Inr candidates, w) \<longrightarrow>
      fst (discover_bedrock_regions svc self) =
        Inr (map fst (filter (\<lambda>(r, res). probe_ok res)
                        (zip candidates (probe_responses svc candidates w)))) \<and>
      supported_regions (snd (discover_bedrock_regions svc self)) =
        map fst (filter (\<lambda>(r, res). probe_ok res)
                   (zip candidates (probe_responses svc candidates w)))) \<and>
   length (probe_responses svc candidates w) = length candidates \<and>
   ((\<forall>r w. list_foundation_models svc r w = (answer r, w)) \<longrightarrow>
      fst (probe_regions svc candidates [] w) = filter (\<lambda>r. probe_ok (answer r)) candidates) \<and>
   (probe_ok res \<longleftrightarrow> (\<exists>response ms. res = Inr response \<and> modelSummaries response = Some ms)) \<and>
   fst (discover_bedrock_regions scenario_D_service (init_collector ())) = Inr [''r1'', ''r3'']"
proof (intro conjI impI)
  assume d: "describe_regions svc (session self) = (Inr candidates, w)"
  obtain supported w' where p: "probe_regions svc candidates [] w = (supported, w')"
    by (cases "probe_regions svc candidates [] w")
  with probe_regions_acc [of svc candidates "[]" w]
  have s: "supported = map fst (filter (\<lambda>(r, res). probe_ok res)
                        (zip candidates (probe_responses svc candidates w)))"
    by simp
  from d p show "fst (discover_bedrock_regions svc self) =
        Inr (map fst (filter (\<lambda>(r, res). probe_ok res)
                        (zip candidates (probe_responses svc candidates w))))"
    unfolding s [symmetric] by (simp add: discover_bedrock_regions_def)
  from d p show "supported_regions (snd (discover_bedrock_regions svc self)) =
        map fst (filter (\<lambda>(r, res). probe_ok res)
                   (zip candidates (probe_responses svc candidates w)))"
    unfolding s [symmetric] by (simp add: discover_bedrock_regions_def)
next
  show "length (probe_responses svc candidates w) = length candidates"
    by (rule length_probe_responses)
next
  assume "\<forall>r w. list_foundation_models svc r w = (answer r, w)"
  then have "\<And>r w. list_foundation_models svc r w = (answer r, w)" by simp
  from probe_stateless [of svc answer candidates w, OF this]
  show "fst (probe_regions svc candidates [] w) = filter (\<lambda>r. probe_ok (answer r)) candidates"
    by (simp add: probe_regions_acc)
next
  show "probe_ok res \<longleftrightarrow> (\<exists>response ms. res = Inr response \<and> modelSummaries response = Some ms)"
    by (cases res) (auto simp: probe_ok_def)
next
  show "fst (discover_bedrock_regions scenario_D_service (init_collector ())) = Inr [''r1'', ''r3'']"
    by (simp add: discover_bedrock_regions_def scenario_D_service_def init_collector_def)
qed

theorem prober_keeps_supported_witness:
  "describe_regions scenario_D_service (session (init_collector ())) = (Inr [''r1'', ''r2'', ''r3''], ()) \<and>
   probe_responses scenario_D_service [''r1'', ''r2'', ''r3''] () =
     [Inr \<lparr>modelSummaries = Some []\<rparr>, Inl BotoCoreError, Inr \<lparr>modelSummaries = Some []\<rparr>] \<and>
   supported_regions (snd (discover_bedrock_regions scenario_D_service (init_collector ()))) =
     [''r1'', ''r3'']"
proof -
  have h: "describe_regions scenario_D_service (session (init_collector ())) =
             (Inr [''r1'', ''r2'', ''r3''], ())"
    by (simp add: scenario_D_service_def)
  have t: "probe_responses scenario_D_service [''r1'', ''r2'', ''r3''] () =
     [Inr \<lparr>modelSummaries = Some []\<rparr>, Inl BotoCoreError, Inr \<lparr>modelSummaries = Some []\<rparr>]"
    by (simp add: scenario_D_service_def)
  from prober_keeps_supported [of scenario_D_service "init_collector ()" "[''r1'', ''r2'', ''r3'']" "()"] h
  have "supported_regions (snd (discover_bedrock_regions scenario_D_service (init_collector ()))) =
        map fst (filter (\<lambda>(r, res). probe_ok res)
                   (zip [''r1'', ''r2'', ''r3''] (probe_responses scenario_D_service [''r1'', ''r2'', ''r3''] ())))"
    by blast
  then have "supported_regions (snd (discover_bedrock_regions scenario_D_service (init_collector ()))) =
     [''r1'', ''r3'']"
    unfolding t by (simp add: probe_ok_Inl probe_ok_Inr)
  with h t show ?thesis by (intro conjI)
qed

section \<open>Fetch failures\<close>

lemma collect_models_loop_append:
  "collect_models_loop svc (pre @ rest) s =
     (case collect_models_loop svc pre s of
        (Inl e, s') \<Rightarrow> (Inl e, s')
      | (Inr u, s') \<Rightarrow> collect_models_loop svc rest s')"
  by (induction pre arbitrary: s) (auto split: prod.splits sum.splits)

lemma collect_profiles_loop_append:
  "collect_profiles_loop svc (pre @ rest) s =
     (case collect_profiles_loop svc pre s of
        (Inl e, s') \<Rightarrow> (Inl e, s')
      | (Inr u, s') \<Rightarrow> collect_profiles_loop svc rest s')"
  by (induction pre arbitrary: s) (auto split: prod.splits sum.splits)

lemma fetch_models_keeps_regions:
  "supported_regions (snd (fetch_models_from_region svc r s)) = supported_regions s"
  by (auto simp: fetch_models_from_region_def split: prod.splits sum.splits)

lemma collect_models_loop_keeps_regions:
  "supported_regions (snd (collect_models_loop svc rs s)) = supported_regions s"
proof (induction rs arbitrary: s)
  case Nil
  show ?case by simp
next
  case (Cons r rs)
  obtain res s' where f: "fetch_models_from_region svc r s = (res, s')"
    by (cases "fetch_models_from_region svc r s")
  with fetch_models_keeps_regions [of svc r s] have k: "supported_regions s' = supported_regions s"
    by simp
  show ?case
  proof (cases res)
    case (Inl e)
    with f k show ?thesis by simp
  next
    case (Inr ms)
    with f k Cons.IH [of "s'\<lparr>models_by_id := collect_models r (models_by_id s') ms\<rparr>"]
    show ?thesis by simp
  qed
qed

lemma models_fetch_raises:
  assumes "collect_models_loop svc pre s1 = (Inr (), s)"
    and "list_foundation_models svc r (session s) = (Inl e, w)"
  shows "fst (collect_models_loop svc (pre @ r # post) s1) = Inl e"
  using assms by (simp add: collect_models_loop_append fetch_models_from_region_def)

lemma profiles_fetch_raises:
  assumes "collect_profiles_loop svc pre s2 = (Inr (), s)"
    and "list_inference_profiles svc r (session s) = (Inl e, w)"
  shows "fst (collect_profiles_loop svc (pre @ r # post) s2) = Inl e"
  using assms by (simp add: collect_profiles_loop_append fetch_profiles_from_region_def)

lemma run_models_raise:
  assumes "discover_bedrock_regions svc self = (Inr supported, s1)"
    and "fst (deduplicate_and_collect_models svc s1) = Inl e"
  shows "fst (run svc out self) = 1 \<and> fst (snd (run svc out self)) = []"
proof -
  obtain s2 where "deduplicate_and_collect_models svc s1 = (Inl e, s2)"
    using assms(2) by (cases "deduplicate_and_collect_models svc s1") auto
  with assms(1) show ?thesis by (simp add: run_def)
qed

lemma run_profiles_raise:
  assumes "discover_bedrock_regions svc self = (Inr supported, s1)"
    and "deduplicate_and_collect_models svc s1 = (Inr (), s2)"
    and "fst (collect_and_flatten_profiles svc s2) = Inl e"
  shows "fst (run svc out self) = 1 \<and> fst (snd (run svc out self)) = []"
proof -
  obtain s3 where "collect_and_flatten_profiles svc s2 = (Inl e, s3)"
    using assms(3) by (cases "collect_and_flatten_profiles svc s2") auto
  with assms(1,2) show ?thesis by (simp add: run_def)
qed

text \<open>
  Claim C7: let \<open>r\<close> be one of the supported regions, and let the fetches for the
  regions before it return. If the listing of the models of \<open>r\<close> raises, or, after all
  models are collected, the listing of its profiles raises, then the method raises that
  exception, the run ends with exit status 1 and no file is written.
\<close>

theorem fetch_failure_is_fatal:
  "(discover_bedrock_regions svc self = (Inr supported, s1) \<and>
    supported_regions s1 = pre @ r # post \<and>
    collect_models_loop svc pre s1 = (Inr (), s) \<and>
    list_foundation_models svc r (session s) = (Inl e, w) \<longrightarrow>
      fst (deduplicate_and_collect_models svc s1) = Inl e \<and>
      fst (run svc out self) = 1 \<and> fst (snd (run svc out self)) = []) \<and>
   (discover_bedrock_regions svc self = (Inr supported, s1) \<and>
    supported_regions s1 = pre @ r # post \<and>
    deduplicate_and_collect_models svc s1 = (Inr (), s2) \<and>
    collect_profiles_loop svc pre s2 = (Inr (), s) \<and>
    list_inference_profiles svc r (session s) = (Inl e, w) \<longrightarrow>
      fst (collect_and_flatten_profiles svc s2) = Inl e \<and>
      fst (run svc out self) = 1 \<and> fst (snd (run svc out self)) = [])"
proof (intro conjI impI)
  assume h: "discover_bedrock_regions svc self = (Inr supported, s1) \<and>
    supported_regions s1 = pre @ r # post \<and>
    collect_models_loop svc pre s1 = (Inr (), s) \<and>
    list_foundation_models svc r (session s) = (Inl e, w)"
  then have d: "discover_bedrock_regions svc self = (Inr supported, s1)"
    and sup: "supported_regions s1 = pre @ r # post"
    and loop: "collect_models_loop svc pre s1 = (Inr (), s)"
    and call: "list_foundation_models svc r (session s) = (Inl e, w)"
    by simp_all
  show raise: "fst (deduplicate_and_collect_models svc s1) = Inl e"
    unfolding deduplicate_and_collect_models_def sup
    by (rule models_fetch_raises [OF loop call])
  from run_models_raise [OF d raise, of out]
  show "fst (run svc out self) = 1" and "fst (snd (run svc out self)) = []" by simp_all
next
  assume h: "discover_bedrock_regions svc self = (Inr supported, s1) \<and>
    supported_regions s1 = pre @ r # post \<and>
    deduplicate_and_collect_models svc s1 = (Inr (), s2) \<and>
    collect_profiles_loop svc pre s2 = (Inr (), s) \<and>
    list_inference_profiles svc r (session s) = (Inl e, w)"
  then have d: "discover_bedrock_regions svc self = (Inr supported, s1)"
    and sup: "supported_regions s1 = pre @ r # post"
    and ded: "deduplicate_and_collect_models svc s1 = (Inr (), s2)"
    and loop: "collect_profiles_loop svc pre s2 = (Inr (), s)"
    and call: "list_inference_profiles svc r (session s) = (Inl e, w)"
    by simp_all
  from ded collect_models_loop_keeps_regions [of svc "supported_regions s1" s1]
  have "supported_regions s2 = supported_regions s1"
    by (simp add: deduplicate_and_collect_models_def)
  with sup have sup2: "supported_regions s2 = pre @ r # post" by simp
  show raise: "fst (collect_and_flatten_profiles svc s2) = Inl e"
    unfolding collect_and_flatten_profiles_def sup2
    by (rule profiles_fetch_raises [OF loop call])
  from run_profiles_raise [OF d ded raise, of out]
  show "fst (run svc out self) = 1" and "fst (snd (run svc out self)) = []" by simp_all
qed

lemma scenario_E_discover:
  "discover_bedrock_regions scenario_E_service (init_collector 0) =
     (Inr [''r1''],
      \<lparr>session = 2, supported_regions = [''r1''], models_by_id = [], profiles_list = []\<rparr>)"
  by (simp add: discover_bedrock_regions_def scenario_E_service_def init_collector_def)

lemma profile_failure_discover:
  "discover_bedrock_regions profile_failure_service (init_collector 0) =
     (Inr [''r1''],
      \<lparr>session = 2, supported_regions = [''r1''], models_by_id = [], profiles_list = []\<rparr>)"
  by (simp add: discover_bedrock_regions_def profile_failure_service_def init_collector_def)

theorem fetch_failure_is_fatal_witness:
  "discover_bedrock_regions scenario_E_service (init_collector 0) =
     (Inr [''r1''],
      \<lparr>session = 2, supported_regions = [''r1''], models_by_id = [], profiles_list = []\<rparr>) \<and>
   list_foundation_models scenario_E_service ''r1'' 2 = (Inl ClientError, 3) \<and>
   fst (run scenario_E_service ''data'' (init_collector 0)) = 1 \<and>
   fst (snd (run scenario_E_service ''data'' (init_collector 0))) = [] \<and>
   list_inference_profiles profile_failure_service ''r1'' 3 = (Inl ClientError, 4) \<and>
   fst (run profile_failure_service ''data'' (init_collector 0)) = 1 \<and>
   fst (snd (run profile_failure_service ''data'' (init_collector 0))) = []"
proof -
  let ?s1 = "\<lparr>session = 2::nat, supported_regions = [''r1''], models_by_id = [], profiles_list = []\<rparr>"
  let ?s2 = "\<lparr>session = 3::nat, supported_regions = [''r1''], models_by_id = [], profiles_list = []\<rparr>"
  have sup: "supported_regions ?s1 = [] @ ''r1'' # []" by simp
  have loop: "collect_models_loop scenario_E_service [] ?s1 = (Inr (), ?s1)" by simp
  have call: "list_foundation_models scenario_E_service ''r1'' (session ?s1) = (Inl ClientError, 3)"
    by (simp add: scenario_E_service_def)
  from fetch_failure_is_fatal [where svc = scenario_E_service and self = "init_collector 0"
      and supported = "[''r1'']" and ?s1.0 = ?s1 and pre = "[]" and r = "''r1''" and post = "[]"
      and s = ?s1 and e = ClientError and w = 3 and out = "''data''"]
    scenario_E_discover sup loop call
  have E: "fst (run scenario_E_service ''data'' (init_collector 0)) = 1 \<and>
           fst (snd (run scenario_E_service ''data'' (init_collector 0))) = []"
    by blast
  have ded: "deduplicate_and_collect_models profile_failure_service ?s1 = (Inr (), ?s2)"
    by (simp add: deduplicate_and_collect_models_def fetch_models_from_region_def
        profile_failure_service_def collect_models_def)
  have loop': "collect_profiles_loop profile_failure_service [] ?s2 = (Inr (), ?s2)" by simp
  have call': "list_inference_profiles profile_failure_service ''r1'' (session ?s2) = (Inl ClientError, 4)"
    by (simp add: profile_failure_service_def)
  from fetch_failure_is_fatal [where svc = profile_failure_service and self = "init_collector 0"
      and supported = "[''r1'']" and ?s1.0 = ?s1 and pre = "[]" and r = "''r1''" and post = "[]"
      and ?s2.0 = ?s2 and s = ?s2 and e = ClientError and w = 4 and out = "''data''"]
    profile_failure_discover sup ded loop' call'
  have P: "fst (run profile_failure_service ''data'' (init_collector 0)) = 1 \<and>
           fst (snd (run profile_failure_service ''data'' (init_collector 0))) = []"
    by blast
  from scenario_E_discover call E call' P show ?thesis by simp
qed

end
